theory Spec2Isabelle
  imports Main "HOL-Library.Sublist"
begin

section \<open>Strings and the JavaScript built-ins the analyser calls\<close>

text \<open>
  A JavaScript string is modelled as a \<open>string\<close>, the list of its code units; the model
  covers the code units below 256. The built-ins are written out as the functions the
  two programs call: \<open>split\<close> on a one-character separator, \<open>includes\<close>, and the
  character classes \<open>\w\<close> and \<open>\s\<close> of regular expressions.
\<close>

abbreviation newline :: char where
  "newline \<equiv> CHR 0x0A"

abbreviation backslash :: char where
  "backslash \<equiv> CHR 0x5C"

text \<open>\<open>s.split(sep)\<close> for a separator of one character: never an empty array.\<close>

fun js_split :: "char \<Rightarrow> string \<Rightarrow> string list" where
  "js_split sep [] = [[]]"
| "js_split sep (c # cs) =
     (if c = sep then [] # js_split sep cs
      else (case js_split sep cs of
              l # ls \<Rightarrow> (c # l) # ls
            | [] \<Rightarrow> [[c]]))"

text \<open>\<open>s.includes(p)\<close>: \<open>p\<close> stands somewhere in \<open>s\<close>.\<close>

fun js_includes :: "string \<Rightarrow> string \<Rightarrow> bool" where
  "js_includes [] p = (p = [])"
| "js_includes (c # cs) p = (prefix p (c # cs) \<or> js_includes cs p)"

text \<open>\<open>\w\<close> is \<open>[A-Za-z0-9_]\<close>.\<close>

definition is_word_char :: "char \<Rightarrow> bool" where
  "is_word_char c =
     (let n = (of_char c :: nat)
      in (48 \<le> n \<and> n \<le> 57) \<or> (65 \<le> n \<and> n \<le> 90) \<or> n = 95 \<or> (97 \<le> n \<and> n \<le> 122))"

text \<open>
  \<open>\s\<close> below 256: tab, line feed, vertical tab, form feed, carriage return, space
  and the no-break space.
\<close>

definition is_space :: "char \<Rightarrow> bool" where
  "is_space c =
     (let n = (of_char c :: nat)
      in (9 \<le> n \<and> n \<le> 13) \<or> n = 32 \<or> n = 160)"

section \<open>Regular expressions\<close>

text \<open>
  The regular expressions of the two programs use literal characters, the assertion
  \<open>\b\<close>, the classes \<open>\s\<close> and \<open>\w\<close> under the greedy \<open>*\<close> and \<open>+\<close>, and a
  negative lookahead on one character, \<open>(?!c)\<close>. A regular expression is the list of
  these atoms.
\<close>

datatype char_class = SpaceClass | WordClass

fun in_class :: "char_class \<Rightarrow> char \<Rightarrow> bool" where
  "in_class SpaceClass c = is_space c"
| "in_class WordClass c = is_word_char c"

datatype rx_atom = Chr char | WordB | Star char_class | Plus char_class | NotAhead char

type_synonym regex = "rx_atom list"

text \<open>
  \<open>\b\<close> holds between the previous character and the next one when exactly one of them
  is a word character; outside the string there is no word character.
\<close>

fun at_boundary :: "char option \<Rightarrow> string \<Rightarrow> bool" where
  "at_boundary prev s =
     ((case prev of None \<Rightarrow> False | Some c \<Rightarrow> is_word_char c)
      \<noteq> (case s of [] \<Rightarrow> False | c # _ \<Rightarrow> is_word_char c))"

text \<open>
  Matching at the current position: \<open>prev\<close> is the character before it, the result is the
  matched text. A starred or plussed class takes as many characters as it can and gives
  them back one by one when the rest of the expression fails.
\<close>

fun match_here :: "regex \<Rightarrow> char option \<Rightarrow> string \<Rightarrow> string option" where
  "match_here [] prev s = Some []"
| "match_here (Chr c # r) prev [] = None"
| "match_here (Chr c # r) prev (d # s) =
     (if c = d then map_option ((#) d) (match_here r (Some d) s) else None)"
| "match_here (WordB # r) prev s =
     (if at_boundary prev s then match_here r prev s else None)"
| "match_here (NotAhead c # r) prev s =
     (case s of
        [] \<Rightarrow> match_here r prev s
      | d # _ \<Rightarrow> if d = c then None else match_here r prev s)"
| "match_here (Star k # r) prev [] = match_here r prev []"
| "match_here (Star k # r) prev (d # s) =
     (if in_class k d then
        (case match_here (Star k # r) (Some d) s of
           Some m \<Rightarrow> Some (d # m)
         | None \<Rightarrow> match_here r prev (d # s))
      else match_here r prev (d # s))"
| "match_here (Plus k # r) prev [] = None"
| "match_here (Plus k # r) prev (d # s) =
     (if in_class k d then map_option ((#) d) (match_here (Star k # r) (Some d) s)
      else None)"

text \<open>
  \<open>s.match(re)\<close> for an expression without the \<open>g\<close> flag, read only for whether it
  is null: the first position, from the left, where the expression matches.
\<close>

fun js_match :: "regex \<Rightarrow> char option \<Rightarrow> string \<Rightarrow> string option" where
  "js_match r prev [] = match_here r prev []"
| "js_match r prev (c # cs) =
     (case match_here r prev (c # cs) of
        Some m \<Rightarrow> Some m
      | None \<Rightarrow> js_match r (Some c) cs)"

text \<open>
  The matches of an expression with the \<open>g\<close> flag: found from the left, each search
  starting where the previous match ended, and one character further after an empty
  match.
\<close>

fun match_all :: "regex \<Rightarrow> char option \<Rightarrow> string \<Rightarrow> string list" where
  "match_all r prev [] = (case match_here r prev [] of Some m \<Rightarrow> [m] | None \<Rightarrow> [])"
| "match_all r prev (c # cs) =
     (case match_here r prev (c # cs) of
        Some m \<Rightarrow>
          (let n = max 1 (length m)
           in m # match_all r (Some ((c # cs) ! (n - 1))) (drop n (c # cs)))
      | None \<Rightarrow> match_all r (Some c) cs)"

text \<open>\<open>s.match(re)\<close> for an expression with the \<open>g\<close> flag: null when nothing matches.\<close>

definition js_match_g :: "regex \<Rightarrow> string \<Rightarrow> string list option" where
  "js_match_g r s = (case match_all r None s of [] \<Rightarrow> None | m # ms \<Rightarrow> Some (m # ms))"

text \<open>
  \<open>s.split(/\s+/)\<close>: the pieces between the runs of white space, an empty piece before
  a leading run and after a trailing one.
\<close>

function js_split_spaces :: "string \<Rightarrow> string list" where
  "js_split_spaces s =
     (case dropWhile (\<lambda>c. \<not> is_space c) s of
        [] \<Rightarrow> [s]
      | _ # rest \<Rightarrow>
          takeWhile (\<lambda>c. \<not> is_space c) s # js_split_spaces (dropWhile is_space rest))"
  by pat_completeness auto
termination
proof (relation "measure length")
  show "wf (measure length)"
    by simp
next
  fix s :: string and d rest
  assume "dropWhile (\<lambda>c. \<not> is_space c) s = d # rest"
  then have "length (d # rest) \<le> length s"
    using length_dropWhile_le [of "\<lambda>c. \<not> is_space c" s] by simp
  moreover have "length (dropWhile is_space rest) \<le> length rest"
    by (rule length_dropWhile_le)
  ultimately show "(dropWhile is_space rest, s) \<in> measure length"
    by simp
qed

declare js_split_spaces.simps [simp del]

text \<open>
  \<open>new RegExp(src, 'g')\<close> on the syntax the keyword patterns are written in: a
  character that has no meaning of its own stands for itself, \<open>\b\<close> is the word
  boundary, and a backslash before a special character makes it literal. Any other source
  is outside the model: \<open>None\<close>.
\<close>

definition regex_special :: "char \<Rightarrow> bool" where
  "regex_special c = (c \<in> set ''.*+?^${}()|[]'' \<or> c = backslash)"

fun new_RegExp :: "string \<Rightarrow> regex option" where
  "new_RegExp [] = Some []"
| "new_RegExp [c] = (if regex_special c then None else Some [Chr c])"
| "new_RegExp (c # d # cs) =
     (if c = backslash then
        (if d = CHR ''b'' then map_option ((#) WordB) (new_RegExp cs)
         else if regex_special d then map_option ((#) (Chr d)) (new_RegExp cs)
         else None)
      else if regex_special c then None
      else map_option ((#) (Chr c)) (new_RegExp (d # cs)))"

section \<open>The command-line analyser (tools/analyze-code.js)\<close>

record issue =
  severity :: string
  line :: nat
  message :: string
  category :: string

record metrics =
  lines :: nat
  characters :: nat
  words :: nat
  complexity :: nat
  complexity_rating :: string
  function_count :: nat
  average_line_length :: nat

record summary =
  total_issues :: nat
  high :: nat
  medium :: nat
  low :: nat
  info :: nat

record report =
  language :: string
  metrics :: metrics
  issues :: "issue list"
  summary :: summary
  analyzed_at :: string

text \<open>\<open>keyword.replace(/[.*+?^${}()|[\]\\]/g, '\\$&')\<close>\<close>

definition escape_regex :: "string \<Rightarrow> string" where
  "escape_regex keyword =
     concat (map (\<lambda>c. if regex_special c then [backslash, c] else [c]) keyword)"

text \<open>\<open>keyword.match(/^\w+$/)\<close>\<close>

definition is_identifier :: "string \<Rightarrow> bool" where
  "is_identifier keyword = (keyword \<noteq> [] \<and> list_all is_word_char keyword)"

definition complexityKeywords :: "string list" where
  "complexityKeywords = [''if'', ''else'', ''for'', ''while'', ''case'', ''&&'', ''||'']"

definition keyword_source :: "string \<Rightarrow> string" where
  "keyword_source keyword =
     (let escapedKeyword = escape_regex keyword
      in if is_identifier keyword
         then [backslash, CHR ''b''] @ escapedKeyword @ [backslash, CHR ''b'']
         else escapedKeyword)"

text \<open>The body of \<open>forEach\<close>, over the keywords left, with the running \<open>complexity\<close>.\<close>

fun complexity_forEach :: "string list \<Rightarrow> string \<Rightarrow> nat \<Rightarrow> nat option" where
  "complexity_forEach [] code complexity' = Some complexity'"
| "complexity_forEach (keyword # rest) code complexity' =
     (case new_RegExp (keyword_source keyword) of
        None \<Rightarrow> None
      | Some pattern \<Rightarrow>
          (case js_match_g pattern code of
             None \<Rightarrow> complexity_forEach rest code complexity'
           | Some matches \<Rightarrow> complexity_forEach rest code (complexity' + length matches)))"

definition calculateComplexity :: "string \<Rightarrow> nat option" where
  "calculateComplexity code = complexity_forEach complexityKeywords code 1"

fun findLineNumber_loop :: "string list \<Rightarrow> string \<Rightarrow> nat \<Rightarrow> nat" where
  "findLineNumber_loop [] pattern i = 1"
| "findLineNumber_loop (l # ls) pattern i =
     (if js_includes l pattern then i + 1 else findLineNumber_loop ls pattern (i + 1))"

definition findLineNumber :: "string \<Rightarrow> string \<Rightarrow> nat" where
  "findLineNumber code pattern = findLineNumber_loop (js_split newline code) pattern 0"

definition getComplexityRating :: "nat \<Rightarrow> string" where
  "getComplexityRating c =
     (if c \<le> 5 then ''simple''
      else if c \<le> 10 then ''moderate''
      else if c \<le> 20 then ''complex''
      else ''very_complex'')"

text \<open>The two regular expressions of the issue rules: \<open>/innerHTML\s*=/\<close> and \<open>/==(?!=)/\<close>.\<close>

definition rx_innerHTML :: regex where
  "rx_innerHTML = map Chr ''innerHTML'' @ [Star SpaceClass, Chr CHR ''='']"

definition rx_loose_eq :: regex where
  "rx_loose_eq = [Chr CHR ''='', Chr CHR ''='', NotAhead CHR ''='']"

text \<open>The five rules, each pushing at most one issue, in the order of the source.\<close>

definition detect_issues :: "string \<Rightarrow> issue list" where
  "detect_issues code =
     (let issues0 = [];
          issues1 =
            (if js_includes code ''eval('' then
               issues0 @ [\<lparr>severity = ''high'', line = findLineNumber code ''eval('',
                 message = ''Dangerous use of eval() detected - security risk'',
                 category = ''security''\<rparr>]
             else issues0);
          issues2 =
            (if js_match rx_innerHTML None code \<noteq> None then
               issues1 @ [\<lparr>severity = ''medium'', line = findLineNumber code ''innerHTML'',
                 message = ''Direct innerHTML assignment can lead to XSS vulnerabilities'',
                 category = ''security''\<rparr>]
             else issues1);
          issues3 =
            (if js_includes code ''var '' then
               issues2 @ [\<lparr>severity = ''low'', line = findLineNumber code ''var '',
                 message = ''Use let or const instead of var for better scoping'',
                 category = ''best-practices''\<rparr>]
             else issues2);
          issues4 =
            (if js_includes code ''console.log'' then
               issues3 @ [\<lparr>severity = ''info'', line = findLineNumber code ''console.log'',
                 message = ''Remove console.log statements before production'',
                 category = ''best-practices''\<rparr>]
             else issues3);
          issues5 =
            (if js_match rx_loose_eq None code \<noteq> None then
               issues4 @ [\<lparr>severity = ''low'', line = findLineNumber code ''=='',
                 message = ''Use === instead of == for strict equality'',
                 category = ''best-practices''\<rparr>]
             else issues4)
      in issues5)"

definition count_severity :: "string \<Rightarrow> issue list \<Rightarrow> nat" where
  "count_severity sev iss = length (filter (\<lambda>i. severity i = sev) iss)"

text \<open>
  The three expressions of the function count: \<open>/function\s+\w+/g\<close>,
  \<open>/\w+\s*=\s*\(/g\<close> and \<open>/=>\s*{/g\<close>.
\<close>

definition rx_function_decl :: regex where
  "rx_function_decl = map Chr ''function'' @ [Plus SpaceClass, Plus WordClass]"

definition rx_assigned_paren :: regex where
  "rx_assigned_paren =
     [Plus WordClass, Star SpaceClass, Chr CHR ''='', Star SpaceClass, Chr CHR ''('']"

definition rx_arrow_body :: regex where
  "rx_arrow_body = [Chr CHR ''='', Chr CHR ''>'', Star SpaceClass, Chr CHR ''{'']"

text \<open>\<open>(code.match(re) || []).length\<close>\<close>

definition match_count :: "regex \<Rightarrow> string \<Rightarrow> nat" where
  "match_count r code = (case js_match_g r code of None \<Rightarrow> 0 | Some ms \<Rightarrow> length ms)"

text \<open>
  \<open>Math.round(chars / lines)\<close> for a number of lines that is not 0: the quotient
  rounded to the nearest integer, a half upwards. (The quotient of the two doubles rounds
  to the same integer as the exact quotient for every text shorter than \<open>2^52\<close>
  characters.)
\<close>

definition round_quotient :: "nat \<Rightarrow> nat \<Rightarrow> nat" where
  "round_quotient chars n = (2 * chars + n) div (2 * n)"

text \<open>
  The report of \<open>analyzeCode(code, language)\<close>; \<open>now\<close> is what
  \<open>new Date().toISOString()\<close> answers at the call.
\<close>

definition analyzeCode :: "string \<Rightarrow> string \<Rightarrow> string \<Rightarrow> report option" where
  "analyzeCode code lang now =
     (let lines' = length (js_split newline code);
          chars = length code;
          words' = length (filter (\<lambda>w. w \<noteq> []) (js_split_spaces code));
          issues' = detect_issues code
      in case calculateComplexity code of
           None \<Rightarrow> None
         | Some complexity' \<Rightarrow>
             (let functionCount =
                    match_count rx_function_decl code + match_count rx_assigned_paren code
                    + match_count rx_arrow_body code
              in Some \<lparr>language = lang,
                   metrics = \<lparr>lines = lines', characters = chars, words = words',
                     complexity = complexity',
                     complexity_rating = getComplexityRating complexity',
                     function_count = functionCount,
                     average_line_length = round_quotient chars lines'\<rparr>,
                   issues = issues',
                   summary = \<lparr>total_issues = length issues',
                     high = count_severity ''high'' issues',
                     medium = count_severity ''medium'' issues',
                     low = count_severity ''low'' issues',
                     info = count_severity ''info'' issues'\<rparr>,
                   analyzed_at = now\<rparr>))"

section \<open>The request/response service (services/code-processor/server.js)\<close>

record svc_issue =
  svc_severity :: string
  svc_message :: string
  svc_category :: string

record svc_metrics =
  svc_lines :: nat
  svc_complexity :: nat
  svc_rating :: string

record svc_summary =
  svc_total_issues :: nat
  svc_high :: nat

record analysis =
  svc_metrics :: svc_metrics
  svc_issues :: "svc_issue list"
  svc_summary :: svc_summary

record suggestion =
  sug_type :: string
  sug_message :: string

definition svc_keywords :: "string list" where
  "svc_keywords = [''if'', ''else'', ''for'', ''while'', ''case'']"

text \<open>The service builds \<open>'\\b' + keyword + '\\b'\<close> for every keyword, with no escaping.\<close>

definition svc_keyword_source :: "string \<Rightarrow> string" where
  "svc_keyword_source keyword = [backslash, CHR ''b''] @ keyword @ [backslash, CHR ''b'']"

fun svc_complexity_forEach :: "string list \<Rightarrow> string \<Rightarrow> nat \<Rightarrow> nat option" where
  "svc_complexity_forEach [] code complexity' = Some complexity'"
| "svc_complexity_forEach (keyword # rest) code complexity' =
     (case new_RegExp (svc_keyword_source keyword) of
        None \<Rightarrow> None
      | Some pattern \<Rightarrow>
          (case js_match_g pattern code of
             None \<Rightarrow> svc_complexity_forEach rest code complexity'
           | Some matches \<Rightarrow> svc_complexity_forEach rest code (complexity' + length matches)))"

definition svc_calculateComplexity :: "string \<Rightarrow> nat option" where
  "svc_calculateComplexity code = svc_complexity_forEach svc_keywords code 1"

definition svc_detect_issues :: "string \<Rightarrow> svc_issue list" where
  "svc_detect_issues code =
     (let issues0 = []
      in if js_includes code ''eval('' then
           issues0 @ [\<lparr>svc_severity = ''high'', svc_message = ''Use of eval() detected'',
             svc_category = ''security''\<rparr>]
         else issues0)"

definition svc_analyzeCode :: "string \<Rightarrow> analysis option" where
  "svc_analyzeCode code =
     (let lines' = length (js_split newline code)
      in case svc_calculateComplexity code of
           None \<Rightarrow> None
         | Some complexity' \<Rightarrow>
             (let issues' = svc_detect_issues code
              in Some \<lparr>svc_metrics = \<lparr>svc_lines = lines', svc_complexity = complexity',
                     svc_rating = (if complexity' \<le> 10 then ''simple'' else ''complex'')\<rparr>,
                   svc_issues = issues',
                   svc_summary = \<lparr>svc_total_issues = length issues',
                     svc_high = length (filter (\<lambda>i. svc_severity i = ''high'') issues')\<rparr>\<rparr>))"

text \<open>The body of the \<open>forEach\<close> over the issues, with the suggestions pushed so far.\<close>

fun suggestions_forEach :: "svc_issue list \<Rightarrow> suggestion list \<Rightarrow> suggestion list" where
  "suggestions_forEach [] suggestions = suggestions"
| "suggestions_forEach (i # rest) suggestions =
     (if svc_severity i = ''high'' then
        suggestions_forEach rest
          (suggestions @ [\<lparr>sug_type = ''security'',
             sug_message = ''Fix '' @ svc_category i @ '' issue: '' @ svc_message i\<rparr>])
      else suggestions_forEach rest suggestions)"

definition generateSuggestions :: "analysis \<Rightarrow> suggestion list" where
  "generateSuggestions a =
     (let suggestions0 = [];
          suggestions1 =
            (if svc_complexity (svc_metrics a) > 10 then
               suggestions0 @ [\<lparr>sug_type = ''refactoring'',
                 sug_message = ''Consider breaking down complex functions into smaller ones''\<rparr>]
             else suggestions0)
      in suggestions_forEach (svc_issues a) suggestions1)"

section \<open>The quantities the specification names\<close>

text \<open>
  The number of matches of a regular expression in a text, found as a global search finds
  them: from the left, none overlapping another.
\<close>

definition count_matches :: "regex \<Rightarrow> string \<Rightarrow> nat" where
  "count_matches r code = length (match_all r None code)"

text \<open>A keyword between two word boundaries, and a keyword as plain text.\<close>

definition word_bounded :: "string \<Rightarrow> regex" where
  "word_bounded kw = WordB # map Chr kw @ [WordB]"

definition literal :: "string \<Rightarrow> regex" where
  "literal kw = map Chr kw"

text \<open>
  The keyword \<open>kw\<close> stands at position \<open>i\<close> of the text as a whole word: no word
  character before it and none behind it.
\<close>

definition whole_word_at :: "string \<Rightarrow> string \<Rightarrow> nat \<Rightarrow> bool" where
  "whole_word_at kw s i =
     (take (length kw) (drop i s) = kw
      \<and> \<not> (0 < i \<and> is_word_char (s ! (i - 1)))
      \<and> \<not> (i + length kw < length s \<and> is_word_char (s ! (i + length kw))))"

text \<open>The occurrences of a keyword with word-boundary matching: the positions above.\<close>

definition occurrences_word :: "string \<Rightarrow> string \<Rightarrow> nat" where
  "occurrences_word kw s = length (filter (whole_word_at kw s) [0..<length s])"

text \<open>
  The occurrences of an operator as a plain substring, found from the left, the search
  going on behind each occurrence: occurrences that overlap an earlier one do not count.
\<close>

fun occurrences_literal :: "string \<Rightarrow> string \<Rightarrow> nat" where
  "occurrences_literal op [] = 0"
| "occurrences_literal op (c # cs) =
     (if prefix op (c # cs) then 1 + occurrences_literal op (drop (length op - 1) cs)
      else occurrences_literal op cs)"

text \<open>The decision points of a text: the occurrences of the seven keywords and operators.\<close>

definition decision_points :: "string \<Rightarrow> nat" where
  "decision_points code =
     (\<Sum>kw\<leftarrow>[''if'', ''else'', ''for'', ''while'', ''case'']. occurrences_word kw code)
     + (\<Sum>op\<leftarrow>[''&&'', ''||'']. occurrences_literal op code)"

text \<open>The service's count: the five keywords only.\<close>

definition svc_decision_points :: "string \<Rightarrow> nat" where
  "svc_decision_points code =
     (\<Sum>kw\<leftarrow>[''if'', ''else'', ''for'', ''while'', ''case'']. occurrences_word kw code)"

text \<open>
  For the proofs: the character before the position that follows the text \<open>p\<close>, and
  the two sides of a word boundary.
\<close>

definition prev_of :: "string \<Rightarrow> char option" where
  "prev_of p = (if p = [] then None else Some (last p))"

definition word_before :: "char option \<Rightarrow> bool" where
  "word_before prev = (case prev of None \<Rightarrow> False | Some c \<Rightarrow> is_word_char c)"

definition word_next :: "string \<Rightarrow> bool" where
  "word_next s = (case s of [] \<Rightarrow> False | c # _ \<Rightarrow> is_word_char c)"

text \<open>
  Line \<open>n\<close>, counted from 1, is the first line of the text that contains \<open>p\<close>.
\<close>

definition first_line_containing :: "string \<Rightarrow> string \<Rightarrow> nat \<Rightarrow> bool" where
  "first_line_containing code p n =
     (let ls = js_split newline code
      in 1 \<le> n \<and> n \<le> length ls \<and> js_includes (ls ! (n - 1)) p
         \<and> list_all (\<lambda>l. \<not> js_includes l p) (take (n - 1) ls))"

text \<open>The text each rule hands to \<open>findLineNumber\<close>, by the rule's message.\<close>

definition search_text :: "string \<Rightarrow> string" where
  "search_text msg =
     (if msg = ''Dangerous use of eval() detected - security risk'' then ''eval(''
      else if msg = ''Direct innerHTML assignment can lead to XSS vulnerabilities'' then ''innerHTML''
      else if msg = ''Use let or const instead of var for better scoping'' then ''var ''
      else if msg = ''Remove console.log statements before production'' then ''console.log''
      else ''=='')"

text \<open>A time stamp for the examples.\<close>

abbreviation example_time :: string where
  "example_time \<equiv> ''2024-01-01T00:00:00.000Z''"

text \<open>The five rules in the order the source tests them: severity, category, message.\<close>

definition rules_in_order :: "(string \<times> string \<times> string) list" where
  "rules_in_order =
     [(''high'', ''security'', ''Dangerous use of eval() detected - security risk''),
      (''medium'', ''security'', ''Direct innerHTML assignment can lead to XSS vulnerabilities''),
      (''low'', ''best-practices'', ''Use let or const instead of var for better scoping''),
      (''info'', ''best-practices'', ''Remove console.log statements before production''),
      (''low'', ''best-practices'', ''Use === instead of == for strict equality'')]"

definition rule_of :: "issue \<Rightarrow> string \<times> string \<times> string" where
  "rule_of i = (severity i, category i, message i)"

definition svc_rule_of :: "svc_issue \<Rightarrow> string \<times> string \<times> string" where
  "svc_rule_of i = (svc_severity i, svc_category i, svc_message i)"

section \<open>Lines and line numbers\<close>

lemma js_includes_sublist: "js_includes s p = sublist p s"
  by (induction s) (simp_all add: sublist_Cons_right)

lemma js_split_nonempty: "js_split sep s \<noteq> []"
  by (induction s) (auto split: list.splits)

lemma js_split_length: "1 \<le> length (js_split sep s)"
  using js_split_nonempty [of sep s] by (cases "js_split sep s") simp_all

lemma js_split_hd: "hd (js_split sep s) = takeWhile (\<lambda>c. c \<noteq> sep) s"
  by (induction s) (auto split: list.splits simp: js_split_nonempty)

lemma prefix_takeWhile_sep: "prefix p s \<Longrightarrow> sep \<notin> set p \<Longrightarrow> prefix p (takeWhile (\<lambda>c. c \<noteq> sep) s)"
proof (induction p arbitrary: s)
  case Nil
  then show ?case by simp
next
  case (Cons a p)
  from Cons.prems(1) obtain t where s: "s = a # t" and pt: "prefix p t"
    by (cases s) auto
  from Cons.prems(2) have "a \<noteq> sep" and "sep \<notin> set p"
    by auto
  with Cons.IH [OF pt] show ?case
    unfolding s by simp
qed

lemma includes_some_line:
  "js_includes s p \<Longrightarrow> sep \<notin> set p \<Longrightarrow> \<exists>l \<in> set (js_split sep s). js_includes l p"
proof (induction s)
  case Nil
  then show ?case by simp
next
  case (Cons c cs)
  obtain l0 ls where split: "js_split sep cs = l0 # ls"
    using js_split_nonempty [of sep cs] by (cases "js_split sep cs") auto
  have l0: "l0 = takeWhile (\<lambda>c. c \<noteq> sep) cs"
    using js_split_hd [of sep cs] split by simp
  show ?case
  proof (cases "js_includes cs p")
    case True
    with Cons obtain l where "l \<in> set (js_split sep cs)" and "js_includes l p"
      by blast
    with split show ?thesis by auto
  next
    case False
    with Cons.prems have pre: "prefix p (c # cs)" by simp
    show ?thesis
    proof (cases p)
      case Nil
      then show ?thesis using split by (auto simp: js_includes_sublist)
    next
      case (Cons a p')
      with pre Cons.prems(2) have "a = c" and "c \<noteq> sep" and "prefix p' cs" and "sep \<notin> set p'"
        by auto
      then have "prefix p' l0"
        using prefix_takeWhile_sep [of p' cs sep] l0 by simp
      with \<open>a = c\<close> \<open>c \<noteq> sep\<close> Cons split show ?thesis by simp
    qed
  qed
qed

lemma findLineNumber_loop_none:
  "list_all (\<lambda>l. \<not> js_includes l p) ls \<Longrightarrow> findLineNumber_loop ls p i = 1"
  by (induction ls arbitrary: i) simp_all

lemma findLineNumber_loop_first:
  "\<exists>l \<in> set ls. js_includes l p \<Longrightarrow>
   \<exists>k < length ls. findLineNumber_loop ls p i = i + k + 1 \<and> js_includes (ls ! k) p
     \<and> list_all (\<lambda>l. \<not> js_includes l p) (take k ls)"
proof (induction ls arbitrary: i)
  case Nil
  then show ?case by simp
next
  case (Cons l ls)
  show ?case
  proof (cases "js_includes l p")
    case True
    then show ?thesis by (intro exI [of _ 0]) simp
  next
    case False
    with Cons.prems have "\<exists>l \<in> set ls. js_includes l p" by simp
    from Cons.IH [OF this, of "i + 1"] obtain k where
      "k < length ls" "findLineNumber_loop ls p (i + 1) = i + 1 + k + 1"
      "js_includes (ls ! k) p" "list_all (\<lambda>l. \<not> js_includes l p) (take k ls)"
      by blast
    with False show ?thesis by (intro exI [of _ "Suc k"]) simp
  qed
qed

lemma findLineNumber_first:
  assumes "js_includes code p" and "newline \<notin> set p"
  shows "first_line_containing code p (findLineNumber code p)"
proof -
  from includes_some_line [OF assms]
  have "\<exists>l \<in> set (js_split newline code). js_includes l p" .
  from findLineNumber_loop_first [OF this, of 0]
  show ?thesis
    by (auto simp: first_line_containing_def findLineNumber_def)
qed

lemma findLineNumber_range:
  "1 \<le> findLineNumber code p \<and> findLineNumber code p \<le> length (js_split newline code)"
proof (cases "\<exists>l \<in> set (js_split newline code). js_includes l p")
  case True
  from findLineNumber_loop_first [OF this, of 0]
  show ?thesis by (auto simp: findLineNumber_def)
next
  case False
  then have "list_all (\<lambda>l. \<not> js_includes l p) (js_split newline code)"
    by (simp add: list_all_iff)
  then show ?thesis
    using js_split_length [of newline code]
    by (simp add: findLineNumber_def findLineNumber_loop_none)
qed

lemma findLineNumber_fallback:
  "list_all (\<lambda>l. \<not> js_includes l p) (js_split newline code) \<Longrightarrow> findLineNumber code p = 1"
  by (simp add: findLineNumber_def findLineNumber_loop_none)

section \<open>Matching\<close>

lemma match_here_Chr:
  "match_here (map Chr kw @ r) prev s =
     (if prefix kw s
      then map_option ((@) kw)
             (match_here r (if kw = [] then prev else Some (last kw)) (drop (length kw) s))
      else None)"
proof (induction kw arbitrary: prev s)
  case Nil
  show ?case by (cases "match_here r prev s") simp_all
next
  case (Cons a kw)
  show ?case
  proof (cases s)
    case Nil
    then show ?thesis by simp
  next
    case (Cons d t)
    then show ?thesis
      by (simp add: Cons.IH option.map_comp comp_def)
  qed
qed

lemma js_match_includes:
  "js_match (map Chr kw @ r) prev s \<noteq> None \<Longrightarrow> js_includes s kw"
proof (induction s arbitrary: prev)
  case Nil
  then show ?case by (simp add: match_here_Chr split: if_splits)
next
  case (Cons c cs)
  then show ?case
    by (auto simp: match_here_Chr split: if_splits option.splits)
qed

lemma innerHTML_match_includes:
  "js_match rx_innerHTML prev code \<noteq> None \<Longrightarrow> js_includes code ''innerHTML''"
  unfolding rx_innerHTML_def by (rule js_match_includes)

lemma loose_eq_here:
  "match_here rx_loose_eq prev s \<noteq> None \<longleftrightarrow>
     prefix ''=='' s \<and> \<not> prefix ''==='' s"
proof (cases s)
  case Nil
  then show ?thesis by (simp add: rx_loose_eq_def)
next
  case s1: (Cons a t)
  show ?thesis
  proof (cases t)
    case Nil
    with s1 show ?thesis by (simp add: rx_loose_eq_def)
  next
    case s2: (Cons b u)
    show ?thesis
      by (cases u) (auto simp: s1 s2 rx_loose_eq_def)
  qed
qed

lemma loose_eq_match_iff:
  "js_match rx_loose_eq prev s \<noteq> None \<longleftrightarrow> js_includes s ''==''"
proof (induction s arbitrary: prev)
  case Nil
  show ?case by (simp add: rx_loose_eq_def)
next
  case (Cons c cs)
  show ?case
  proof (cases "match_here rx_loose_eq prev (c # cs)")
    case (Some m)
    then have ne: "match_here rx_loose_eq prev (c # cs) \<noteq> None"
      by simp
    from iffD1 [OF loose_eq_here ne] have "prefix ''=='' (c # cs)"
      by (rule conjunct1)
    then have "js_includes (c # cs) ''==''"
      unfolding js_includes.simps by (rule disjI1)
    moreover have "js_match rx_loose_eq prev (c # cs) \<noteq> None"
      using Some by simp
    ultimately show ?thesis
      by blast
  next
    case None
    have "prefix ''=='' (c # cs) \<longrightarrow> prefix ''==='' (c # cs)"
      using iffD2 [OF loose_eq_here, of "c # cs" prev] None by blast
    then have "prefix ''=='' (c # cs) \<longrightarrow> js_includes cs ''==''"
      by (cases cs) auto
    then have "js_includes (c # cs) ''=='' \<longleftrightarrow> js_includes cs ''==''"
      unfolding js_includes.simps by blast
    moreover have "js_match rx_loose_eq prev (c # cs) = js_match rx_loose_eq (Some c) cs"
      using None by simp
    ultimately show ?thesis
      using Cons.IH [of "Some c"] by simp
  qed
qed

section \<open>Counting matches\<close>

lemma at_boundary_words: "at_boundary prev s = (word_before prev \<noteq> word_next s)"
  by (simp add: word_before_def word_next_def)

lemma prefix_take_iff: "prefix kw s \<longleftrightarrow> take (length kw) s = kw"
proof
  assume "prefix kw s"
  then obtain t where "s = kw @ t" by (auto simp: prefix_def)
  then show "take (length kw) s = kw" by simp
next
  assume "take (length kw) s = kw"
  then show "prefix kw s" by (metis take_is_prefix)
qed

lemma match_word_bounded_here:
  assumes "is_identifier kw"
  shows "match_here (word_bounded kw) prev s =
           (if prefix kw s \<and> \<not> word_before prev \<and> \<not> word_next (drop (length kw) s)
            then Some kw else None)"
proof (cases "prefix kw s")
  case False
  then show ?thesis
    using match_here_Chr [of kw "[WordB]" prev s] by (simp add: word_bounded_def)
next
  case True
  from assms have ne: "kw \<noteq> []" and all: "list_all is_word_char kw"
    by (simp_all add: is_identifier_def)
  from all ne have first: "is_word_char (hd kw)" and final: "is_word_char (last kw)"
    by (simp_all add: list_all_iff)
  from True ne obtain t where s: "s = kw @ t"
    by (auto simp: prefix_def)
  from ne first have "word_next (kw @ t)"
    by (cases kw) (simp_all add: word_next_def)
  then have before: "at_boundary prev (kw @ t) = (\<not> word_before prev)"
    by (simp only: at_boundary_words) blast
  from final have after: "at_boundary (Some (last kw)) t = (\<not> word_next t)"
    by (simp only: at_boundary_words word_before_def option.case) blast
  have "match_here (word_bounded kw) prev (kw @ t)
          = (if at_boundary prev (kw @ t)
             then match_here (map Chr kw @ [WordB]) prev (kw @ t) else None)"
    by (simp add: word_bounded_def)
  also have "match_here (map Chr kw @ [WordB]) prev (kw @ t)
          = map_option ((@) kw) (match_here [WordB] (Some (last kw)) t)"
    using match_here_Chr [of kw "[WordB]" prev "kw @ t"] ne by simp
  also have "match_here [WordB] (Some (last kw)) t
          = (if at_boundary (Some (last kw)) t then Some [] else None)"
    by simp
  finally have "match_here (word_bounded kw) prev (kw @ t)
          = (if \<not> word_before prev \<and> \<not> word_next t then Some kw else None)"
    by (simp add: before after del: at_boundary.simps)
  then show ?thesis
    by (simp add: s)
qed

lemma whole_word_at_split:
  "whole_word_at kw (p @ s) (length p)
     = (prefix kw s \<and> \<not> word_before (prev_of p) \<and> \<not> word_next (drop (length kw) s))"
proof -
  have a: "take (length kw) (drop (length p) (p @ s)) = kw \<longleftrightarrow> prefix kw s"
    by (simp add: prefix_take_iff)
  have b: "(0 < length p \<and> is_word_char ((p @ s) ! (length p - 1))) = word_before (prev_of p)"
    by (cases p rule: rev_cases) (simp_all add: word_before_def prev_of_def nth_append)
  have c: "(length p + length kw < length (p @ s) \<and> is_word_char ((p @ s) ! (length p + length kw)))
             = word_next (drop (length kw) s)"
  proof (cases "length kw < length s")
    case True
    then have "drop (length kw) s = s ! length kw # drop (Suc (length kw)) s"
      by (simp add: Cons_nth_drop_Suc)
    with True show ?thesis
      by (simp add: word_next_def nth_append)
  next
    case False
    then show ?thesis by (simp add: word_next_def)
  qed
  show ?thesis
    unfolding whole_word_at_def a b c ..
qed

lemma no_whole_word_inside:
  assumes "list_all is_word_char kw" and "length p < i" and "i < length p + length kw"
  shows "\<not> whole_word_at kw (p @ kw @ t) i"
proof -
  from assms(2,3) obtain j where i: "i = length p + Suc j" and j: "j < length kw"
    by (metis add_Suc_right less_iff_Suc_add nat_add_left_cancel_less Suc_lessD)
  have "(p @ kw @ t) ! (length p + j) = kw ! j"
    using j by (simp add: nth_append)
  moreover have "kw ! j \<in> set kw"
    using j by simp
  ultimately have "is_word_char ((p @ kw @ t) ! (length p + j))"
    using assms(1) by (simp add: list_all_iff)
  then show ?thesis
    by (simp add: whole_word_at_def i)
qed

lemma prev_of_snoc: "prev_of (p @ [c]) = Some c"
  by (simp add: prev_of_def)

lemma count_word_bounded_from:
  assumes kw: "is_identifier kw"
  shows "length (match_all (word_bounded kw) (prev_of p) s)
           = length (filter (whole_word_at kw (p @ s)) [length p..<length p + length s])"
proof (induction "length s" arbitrary: p s rule: less_induct)
  case less
  from kw have ne: "kw \<noteq> []" and all: "list_all is_word_char kw"
    by (simp_all add: is_identifier_def)
  show ?case
  proof (cases s)
    case Nil
    with ne show ?thesis
      by (simp add: match_word_bounded_here [OF kw])
  next
    case (Cons c cs)
    have here: "match_here (word_bounded kw) (prev_of p) s
                  = (if whole_word_at kw (p @ s) (length p) then Some kw else None)"
      by (simp only: match_word_bounded_here [OF kw] whole_word_at_split)
    have "length p < length p + length s"
      using Cons by simp
    then have range: "[length p..<length p + length s]
                   = length p # [Suc (length p)..<length p + length s]"
      by (rule upt_conv_Cons)
    show ?thesis
    proof (cases "whole_word_at kw (p @ s) (length p)")
      case False
      have "length (match_all (word_bounded kw) (prev_of p) s)
              = length (match_all (word_bounded kw) (prev_of (p @ [c])) cs)"
        using here False Cons by (simp add: prev_of_snoc)
      also have "\<dots> = length (filter (whole_word_at kw ((p @ [c]) @ cs))
                              [length (p @ [c])..<length (p @ [c]) + length cs])"
        using less [of cs "p @ [c]"] Cons by (simp del: upt_Suc)
      also have "\<dots> = length (filter (whole_word_at kw (p @ s))
                              [Suc (length p)..<length p + length s])"
        using Cons by (simp del: upt_Suc)
      also have "\<dots> = length (filter (whole_word_at kw (p @ s))
                              [length p..<length p + length s])"
        using False by (simp only: range filter.simps if_False)
      finally show ?thesis .
    next
      case True
      then have "prefix kw s"
        by (simp add: whole_word_at_split)
      then obtain t where s: "s = kw @ t"
        by (auto simp: prefix_def)
      let ?n = "length kw"
      from ne have n: "max 1 ?n = ?n" "0 < ?n"
        by (simp_all add: Suc_le_eq max_def)
      have last: "s ! (?n - 1) = last kw"
        using ne s by (simp add: nth_append last_conv_nth)
      have rest: "drop ?n s = t"
        by (simp add: s)
      have "match_all (word_bounded kw) (prev_of p) s
              = (case match_here (word_bounded kw) (prev_of p) s of
                   Some m \<Rightarrow>
                     (let n = max 1 (length m)
                      in m # match_all (word_bounded kw) (Some (s ! (n - 1))) (drop n s))
                 | None \<Rightarrow> match_all (word_bounded kw) (Some c) cs)"
        unfolding Cons by (rule match_all.simps)
      also have "\<dots> = kw # match_all (word_bounded kw) (Some (s ! (?n - 1))) (drop ?n s)"
        by (simp only: here True if_True option.case Let_def n(1))
      finally have "match_all (word_bounded kw) (prev_of p) s
              = kw # match_all (word_bounded kw) (Some (last kw)) t"
        by (simp only: last rest)
      moreover have "prev_of (p @ kw) = Some (last kw)"
        using ne by (simp add: prev_of_def)
      ultimately have "length (match_all (word_bounded kw) (prev_of p) s)
              = Suc (length (match_all (word_bounded kw) (prev_of (p @ kw)) t))"
        by simp
      also have "length (match_all (word_bounded kw) (prev_of (p @ kw)) t)
              = length (filter (whole_word_at kw ((p @ kw) @ t))
                          [length (p @ kw)..<length (p @ kw) + length t])"
        using less [of t "p @ kw"] s n by (simp del: upt_Suc)
      finally have lhs: "length (match_all (word_bounded kw) (prev_of p) s)
              = Suc (length (filter (whole_word_at kw (p @ s))
                               [length p + ?n..<length p + length s]))"
        by (simp add: s add.assoc del: upt_Suc)
      have "length p + length s = (length p + ?n) + length t"
        by (simp add: s)
      then have "[length p..<length p + length s]
              = [length p..<length p + ?n] @ [length p + ?n..<length p + length s]"
        using upt_add_eq_append [of "length p" "length p + ?n" "length t"]
        by (simp add: add.assoc)
      moreover have "[length p..<length p + ?n] = length p # [Suc (length p)..<length p + ?n]"
        using n(2) by (intro upt_conv_Cons) simp
      ultimately have "[length p..<length p + length s]
              = length p # [Suc (length p)..<length p + ?n] @ [length p + ?n..<length p + length s]"
        by simp
      moreover have "filter (whole_word_at kw (p @ s)) [Suc (length p)..<length p + ?n] = []"
        using no_whole_word_inside [OF all, of p _ t] s by (simp add: filter_empty_conv del: upt_Suc)
      ultimately have "filter (whole_word_at kw (p @ s)) [length p..<length p + length s]
              = length p # filter (whole_word_at kw (p @ s)) [length p + ?n..<length p + length s]"
        using True by (simp del: upt_Suc)
      with lhs show ?thesis
        by (simp del: upt_Suc)
    qed
  qed
qed

lemma count_word_bounded:
  "is_identifier kw \<Longrightarrow> count_matches (word_bounded kw) s = occurrences_word kw s"
  using count_word_bounded_from [of kw "[]" s]
  by (simp add: count_matches_def occurrences_word_def prev_of_def)

lemma match_literal_here:
  "match_here (literal op) prev s = (if prefix op s then Some op else None)"
  using match_here_Chr [of op "[]" prev s] by (simp add: literal_def)

lemma count_literal_from:
  "op \<noteq> [] \<Longrightarrow> length (match_all (literal op) prev s) = occurrences_literal op s"
proof (induction op s arbitrary: prev rule: occurrences_literal.induct)
  case (1 op)
  then show ?case
    by (simp add: match_literal_here)
next
  case (2 op c cs)
  from "2.prems" have n: "max 1 (length op) = length op"
    by (simp add: Suc_le_eq max_def)
  from "2.prems" have d: "drop (length op) (c # cs) = drop (length op - 1) cs"
    by (cases op) simp_all
  show ?case
  proof (cases "prefix op (c # cs)")
    case True
    then show ?thesis
      using "2.IH"(1) [OF True "2.prems"] n d
      by (simp add: match_literal_here Let_def del: drop_Suc_Cons)
  next
    case False
    then show ?thesis
      using "2.IH"(2) [OF False "2.prems"]
      by (simp add: match_literal_here)
  qed
qed

lemma count_literal:
  "op \<noteq> [] \<Longrightarrow> count_matches (literal op) s = occurrences_literal op s"
  by (simp add: count_matches_def count_literal_from)

section \<open>The complexity count and the issue list in closed form\<close>

lemma keyword_patterns:
  "new_RegExp (keyword_source ''if'') = Some (word_bounded ''if'')"
  "new_RegExp (keyword_source ''else'') = Some (word_bounded ''else'')"
  "new_RegExp (keyword_source ''for'') = Some (word_bounded ''for'')"
  "new_RegExp (keyword_source ''while'') = Some (word_bounded ''while'')"
  "new_RegExp (keyword_source ''case'') = Some (word_bounded ''case'')"
  "new_RegExp (keyword_source ''&&'') = Some (literal ''&&'')"
  "new_RegExp (keyword_source ''||'') = Some (literal ''||'')"
  by (simp_all add: keyword_source_def escape_regex_def regex_special_def is_identifier_def
      is_word_char_def word_bounded_def literal_def)

lemma svc_keyword_patterns:
  "new_RegExp (svc_keyword_source ''if'') = Some (word_bounded ''if'')"
  "new_RegExp (svc_keyword_source ''else'') = Some (word_bounded ''else'')"
  "new_RegExp (svc_keyword_source ''for'') = Some (word_bounded ''for'')"
  "new_RegExp (svc_keyword_source ''while'') = Some (word_bounded ''while'')"
  "new_RegExp (svc_keyword_source ''case'') = Some (word_bounded ''case'')"
  by (simp_all add: svc_keyword_source_def regex_special_def word_bounded_def)

lemma match_g_adds:
  "(case js_match_g r code of None \<Rightarrow> f n | Some ms \<Rightarrow> f (n + length ms))
     = f (n + count_matches r code)"
  by (simp add: js_match_g_def count_matches_def split: list.splits)

lemma complexity_forEach_step:
  assumes "new_RegExp (keyword_source keyword) = Some r"
  shows "complexity_forEach (keyword # rest) code n
           = complexity_forEach rest code (n + count_matches r code)"
  using assms match_g_adds [where r = r and code = code and f = "complexity_forEach rest code" and n = n] by simp

lemma svc_complexity_forEach_step:
  assumes "new_RegExp (svc_keyword_source keyword) = Some r"
  shows "svc_complexity_forEach (keyword # rest) code n
           = svc_complexity_forEach rest code (n + count_matches r code)"
  using assms match_g_adds [where r = r and code = code and f = "svc_complexity_forEach rest code" and n = n] by simp

lemma keywords_are_identifiers:
  "is_identifier ''if''" "is_identifier ''else''" "is_identifier ''for''"
  "is_identifier ''while''" "is_identifier ''case''"
  by (simp_all add: is_identifier_def is_word_char_def)

lemma calculateComplexity_matches:
  "calculateComplexity code =
     Some (1 + (count_matches (word_bounded ''if'') code
        + (count_matches (word_bounded ''else'') code
        + (count_matches (word_bounded ''for'') code
        + (count_matches (word_bounded ''while'') code
        + (count_matches (word_bounded ''case'') code
        + (count_matches (literal ''&&'') code + count_matches (literal ''||'') code)))))))"
  unfolding calculateComplexity_def complexityKeywords_def
  by (simp only: complexity_forEach_step [OF keyword_patterns(1)]
      complexity_forEach_step [OF keyword_patterns(2)]
      complexity_forEach_step [OF keyword_patterns(3)]
      complexity_forEach_step [OF keyword_patterns(4)]
      complexity_forEach_step [OF keyword_patterns(5)]
      complexity_forEach_step [OF keyword_patterns(6)]
      complexity_forEach_step [OF keyword_patterns(7)]
      complexity_forEach.simps(1) add.assoc)

lemma calculateComplexity_eq: "calculateComplexity code = Some (1 + decision_points code)"
  by (simp add: calculateComplexity_matches decision_points_def count_literal
      count_word_bounded [OF keywords_are_identifiers(1)]
      count_word_bounded [OF keywords_are_identifiers(2)]
      count_word_bounded [OF keywords_are_identifiers(3)]
      count_word_bounded [OF keywords_are_identifiers(4)]
      count_word_bounded [OF keywords_are_identifiers(5)])

lemma svc_calculateComplexity_matches:
  "svc_calculateComplexity code =
     Some (1 + (count_matches (word_bounded ''if'') code
        + (count_matches (word_bounded ''else'') code
        + (count_matches (word_bounded ''for'') code
        + (count_matches (word_bounded ''while'') code
        + count_matches (word_bounded ''case'') code)))))"
  unfolding svc_calculateComplexity_def svc_keywords_def
  by (simp only: svc_complexity_forEach_step [OF svc_keyword_patterns(1)]
      svc_complexity_forEach_step [OF svc_keyword_patterns(2)]
      svc_complexity_forEach_step [OF svc_keyword_patterns(3)]
      svc_complexity_forEach_step [OF svc_keyword_patterns(4)]
      svc_complexity_forEach_step [OF svc_keyword_patterns(5)]
      svc_complexity_forEach.simps(1) add.assoc)

lemma svc_calculateComplexity_eq:
  "svc_calculateComplexity code = Some (1 + svc_decision_points code)"
  by (simp add: svc_calculateComplexity_matches svc_decision_points_def
      count_word_bounded [OF keywords_are_identifiers(1)]
      count_word_bounded [OF keywords_are_identifiers(2)]
      count_word_bounded [OF keywords_are_identifiers(3)]
      count_word_bounded [OF keywords_are_identifiers(4)]
      count_word_bounded [OF keywords_are_identifiers(5)])

lemma detect_issues_eq:
  "detect_issues code =
     (if js_includes code ''eval('' then
        [\<lparr>severity = ''high'', line = findLineNumber code ''eval('',
          message = ''Dangerous use of eval() detected - security risk'',
          category = ''security''\<rparr>] else [])
     @ (if js_match rx_innerHTML None code \<noteq> None then
        [\<lparr>severity = ''medium'', line = findLineNumber code ''innerHTML'',
          message = ''Direct innerHTML assignment can lead to XSS vulnerabilities'',
          category = ''security''\<rparr>] else [])
     @ (if js_includes code ''var '' then
        [\<lparr>severity = ''low'', line = findLineNumber code ''var '',
          message = ''Use let or const instead of var for better scoping'',
          category = ''best-practices''\<rparr>] else [])
     @ (if js_includes code ''console.log'' then
        [\<lparr>severity = ''info'', line = findLineNumber code ''console.log'',
          message = ''Remove console.log statements before production'',
          category = ''best-practices''\<rparr>] else [])
     @ (if js_match rx_loose_eq None code \<noteq> None then
        [\<lparr>severity = ''low'', line = findLineNumber code ''=='',
          message = ''Use === instead of == for strict equality'',
          category = ''best-practices''\<rparr>] else [])"
  unfolding detect_issues_def Let_def by simp

section \<open>The report in closed form\<close>

lemma analyzeCode_eq:
  "analyzeCode code lang now =
     Some \<lparr>language = lang,
       metrics = \<lparr>lines = length (js_split newline code), characters = length code,
         words = length (filter (\<lambda>w. w \<noteq> []) (js_split_spaces code)),
         complexity = 1 + decision_points code,
         complexity_rating = getComplexityRating (1 + decision_points code),
         function_count =
           match_count rx_function_decl code + match_count rx_assigned_paren code
           + match_count rx_arrow_body code,
         average_line_length = round_quotient (length code) (length (js_split newline code))\<rparr>,
       issues = detect_issues code,
       summary = \<lparr>total_issues = length (detect_issues code),
         high = count_severity ''high'' (detect_issues code),
         medium = count_severity ''medium'' (detect_issues code),
         low = count_severity ''low'' (detect_issues code),
         info = count_severity ''info'' (detect_issues code)\<rparr>,
       analyzed_at = now\<rparr>"
  by (simp add: analyzeCode_def calculateComplexity_eq Let_def)

lemma svc_analyzeCode_eq:
  "svc_analyzeCode code =
     Some \<lparr>svc_metrics = \<lparr>svc_lines = length (js_split newline code),
         svc_complexity = 1 + svc_decision_points code,
         svc_rating = (if 1 + svc_decision_points code \<le> 10 then ''simple'' else ''complex'')\<rparr>,
       svc_issues = svc_detect_issues code,
       svc_summary = \<lparr>svc_total_issues = length (svc_detect_issues code),
         svc_high = length (filter (\<lambda>i. svc_severity i = ''high'') (svc_detect_issues code))\<rparr>\<rparr>"
  by (simp add: svc_analyzeCode_def svc_calculateComplexity_eq Let_def)

lemma severity_counts:
  "count_severity ''high'' (detect_issues code) + count_severity ''medium'' (detect_issues code)
   + count_severity ''low'' (detect_issues code) + count_severity ''info'' (detect_issues code)
   = length (detect_issues code)"
  by (simp add: detect_issues_eq count_severity_def)

lemma rules_subseq: "subseq (map rule_of (detect_issues code)) rules_in_order"
  by (simp add: detect_issues_eq rule_of_def rules_in_order_def)

lemma issues_at_most_five: "length (detect_issues code) \<le> 5"
  by (simp add: detect_issues_eq)

lemma findLineNumber_pos: "Suc 0 \<le> findLineNumber code p"
  using findLineNumber_range [of code p] by simp

lemma findLineNumber_le: "findLineNumber code p \<le> length (js_split newline code)"
  using findLineNumber_range [of code p] by simp

lemma issue_lines_in_range:
  "list_all (\<lambda>i. 1 \<le> line i \<and> line i \<le> length (js_split newline code)) (detect_issues code)"
  by (simp add: detect_issues_eq findLineNumber_pos findLineNumber_le)

lemma issue_lines_first:
  "list_all (\<lambda>i. line i = findLineNumber code (search_text (message i))
                \<and> first_line_containing code (search_text (message i)) (line i))
     (detect_issues code)"
  by (simp add: detect_issues_eq search_text_def findLineNumber_first innerHTML_match_includes
      loose_eq_match_iff [THEN iffD1])

lemma suggestions_forEach_eq:
  "suggestions_forEach iss acc =
     acc @ map (\<lambda>i. \<lparr>sug_type = ''security'',
                      sug_message = ''Fix '' @ svc_category i @ '' issue: '' @ svc_message i\<rparr>)
             (filter (\<lambda>i. svc_severity i = ''high'') iss)"
  by (induction iss arbitrary: acc) simp_all

text \<open>
  How far the service's copy of the rules has drifted from the command-line analyser: its
  complexity lacks the occurrences of \<open>&&\<close> and \<open>||\<close>; of the five rules it keeps
  the one for \<open>eval(\<close>, with the same severity and category, and under a message that
  the command-line analyser never gives.
\<close>

lemma drift_between_paths:
  "\<exists>r a. analyzeCode code lang now = Some r \<and> svc_analyzeCode code = Some a
     \<and> complexity (metrics r)
         = svc_complexity (svc_metrics a)
           + occurrences_literal ''&&'' code + occurrences_literal ''||'' code
     \<and> (svc_issues a \<noteq> []) = js_includes code ''eval(''
     \<and> map (\<lambda>i. (svc_severity i, svc_category i)) (svc_issues a)
         = map (\<lambda>i. (severity i, category i)) (filter (\<lambda>i. severity i = ''high'') (issues r))
     \<and> set (map svc_message (svc_issues a)) \<inter> set (map message (issues r)) = {}"
proof -
  have count: "1 + decision_points code
                 = 1 + svc_decision_points code
                   + occurrences_literal ''&&'' code + occurrences_literal ''||'' code"
    by (simp add: decision_points_def svc_decision_points_def)
  have fires: "(svc_detect_issues code \<noteq> []) = js_includes code ''eval(''"
    by (simp add: svc_detect_issues_def)
  have same: "map (\<lambda>i. (svc_severity i, svc_category i)) (svc_detect_issues code)
                = map (\<lambda>i. (severity i, category i))
                    (filter (\<lambda>i. severity i = ''high'') (detect_issues code))"
    by (simp add: detect_issues_eq svc_detect_issues_def)
  have "''Use of eval() detected'' \<notin> set (map message (detect_issues code))"
    by (auto simp: detect_issues_eq split: if_splits)
  then have other: "set (map svc_message (svc_detect_issues code))
                      \<inter> set (map message (detect_issues code)) = {}"
    by (auto simp: svc_detect_issues_def)
  show ?thesis
    using count fires same other
    by (simp only: analyzeCode_eq svc_analyzeCode_eq option.inject simp_thms ex_simps
        report.simps metrics.simps analysis.simps svc_metrics.simps)
qed

section \<open>The properties of the specification\<close>

text \<open>
  C1: the command-line path and the service path must give the same
  \<open>metrics.complexity\<close> and the same issues (severity, category, message) for the same
  input. The two copies of the rules do not: on \<open>eval(a && b)\<close> the command-line
  analyser counts the \<open>&&\<close> and reports complexity 2 with its message for \<open>eval\<close>,
  while the service, whose copy of \<open>calculateComplexity\<close> leaves the operators out,
  reports complexity 1 and another message.
\<close>

theorem paths_differ_on_eval_and:
  "map_option (complexity \<circ> metrics)
       (analyzeCode ''eval(a && b)'' ''javascript'' example_time)
     = Some 2
   \<and> map_option (svc_complexity \<circ> svc_metrics) (svc_analyzeCode ''eval(a && b)'')
     = Some 1
   \<and> map_option (map rule_of \<circ> issues)
       (analyzeCode ''eval(a && b)'' ''javascript'' example_time)
     = Some [(''high'', ''security'', ''Dangerous use of eval() detected - security risk'')]
   \<and> map_option (map svc_rule_of \<circ> svc_issues) (svc_analyzeCode ''eval(a && b)'')
     = Some [(''high'', ''security'', ''Use of eval() detected'')]"
  by code_simp

text \<open>
  C2: \<open>analyze("if (a == b) {}")\<close> reports one issue, of severity low, for the loose
  equality. \<open>analyze("if (a === b) {}")\<close> reports the same issue: the expression
  \<open>/==(?!=)/\<close> matches the last two characters of \<open>===\<close>.
\<close>

theorem strict_equality_is_flagged:
  "map_option (map rule_of \<circ> issues)
       (analyzeCode ''if (a == b) {}'' ''javascript'' example_time)
     = Some [(''low'', ''best-practices'', ''Use === instead of == for strict equality'')]
   \<and> map_option (map rule_of \<circ> issues)
       (analyzeCode ''if (a === b) {}'' ''javascript'' example_time)
     = Some [(''low'', ''best-practices'', ''Use === instead of == for strict equality'')]"
  by code_simp

text \<open>
  C3, as the specification states it: the line of an issue is the first line that contains
  what the issue's rule matched. In the text of two lines \<open>a.innerHTML;\<close> and
  \<open>b.innerHTML = c\<close> the rule \<open>/innerHTML\s*=/\<close> matches on line 2 only, and the issue
  carries line 1.
\<close>

theorem innerHTML_line_is_not_the_assignment:
  "map_option (map rule_of \<circ> issues)
       (analyzeCode (''a.innerHTML;'' @ [newline] @ ''b.innerHTML = c'')
          ''javascript'' example_time)
     = Some [(''medium'', ''security'',
              ''Direct innerHTML assignment can lead to XSS vulnerabilities'')]
   \<and> map_option (map line \<circ> issues)
       (analyzeCode (''a.innerHTML;'' @ [newline] @ ''b.innerHTML = c'')
          ''javascript'' example_time)
     = Some [1]
   \<and> js_split newline (''a.innerHTML;'' @ [newline] @ ''b.innerHTML = c'')
     = [''a.innerHTML;'', ''b.innerHTML = c'']
   \<and> js_match rx_innerHTML None ''a.innerHTML;'' = None
   \<and> js_match rx_innerHTML None ''b.innerHTML = c'' = Some ''innerHTML =''"
  by code_simp

text \<open>
  C3, amended: the line of every issue is the 1-based index of the first line that contains
  the text its rule hands to \<open>findLineNumber\<close>: \<open>eval(\<close>, \<open>innerHTML\<close> (the name
  alone, not the assignment), \<open>var \<close>, \<open>console.log\<close> or \<open>==\<close>. When a rule fires
  such a line exists. \<open>findLineNumber\<close> itself answers 1 when no line contains the text.
\<close>

theorem issue_line_is_first_line_with_search_text:
  "(\<exists>r. analyzeCode code lang now = Some r
      \<and> list_all (\<lambda>i. line i = findLineNumber code (search_text (message i))
                     \<and> first_line_containing code (search_text (message i)) (line i))
           (issues r))
   \<and> (list_all (\<lambda>l. \<not> js_includes l p) (js_split newline code) \<longrightarrow> findLineNumber code p = 1)"
  by (simp add: analyzeCode_eq issue_lines_first findLineNumber_fallback)

theorem issue_line_is_first_line_with_search_text_witness:
  "map_option (map (\<lambda>i. (search_text (message i), line i)) \<circ> issues)
       (analyzeCode (''a.innerHTML;'' @ [newline] @ ''b.innerHTML = eval(c)'')
          ''javascript'' example_time)
     = Some [(''eval('', 2), (''innerHTML'', 1)]
   \<and> first_line_containing (''a.innerHTML;'' @ [newline] @ ''b.innerHTML = eval(c)'') ''eval('' 2
   \<and> first_line_containing (''a.innerHTML;'' @ [newline] @ ''b.innerHTML = eval(c)'') ''innerHTML'' 1
   \<and> list_all (\<lambda>l. \<not> js_includes l ''var '')
         (js_split newline (''a.innerHTML;'' @ [newline] @ ''b.innerHTML = eval(c)''))
   \<and> findLineNumber (''a.innerHTML;'' @ [newline] @ ''b.innerHTML = eval(c)'') ''var '' = 1"
proof -
  let ?code = "''a.innerHTML;'' @ [newline] @ ''b.innerHTML = eval(c)''"
  have ev: "map_option (map (\<lambda>i. (search_text (message i), line i)) \<circ> issues)
       (analyzeCode ?code ''javascript'' example_time) = Some [(''eval('', 2), (''innerHTML'', 1)]"
    by code_simp
  have none: "list_all (\<lambda>l. \<not> js_includes l ''var '') (js_split newline ?code)"
    by code_simp
  from issue_line_is_first_line_with_search_text [of ?code "''javascript''" example_time "''var ''"]
  obtain r where r: "analyzeCode ?code ''javascript'' example_time = Some r"
    and first: "list_all (\<lambda>i. line i = findLineNumber ?code (search_text (message i))
                     \<and> first_line_containing ?code (search_text (message i)) (line i))
           (issues r)"
    and fb: "list_all (\<lambda>l. \<not> js_includes l ''var '') (js_split newline ?code)
             \<longrightarrow> findLineNumber ?code ''var '' = 1"
    by blast
  from ev r obtain i1 i2 where iss: "issues r = [i1, i2]"
    and i1: "search_text (message i1) = ''eval(''" "line i1 = 2"
    and i2: "search_text (message i2) = ''innerHTML''" "line i2 = 1"
    by auto
  from first iss i1 i2 have "first_line_containing ?code ''eval('' 2"
    and "first_line_containing ?code ''innerHTML'' 1"
    by auto
  with ev none fb show ?thesis
    by blast
qed

text \<open>
  C4: \<open>metrics.complexity\<close> is 1 plus the number of occurrences of each of \<open>if\<close>,
  \<open>else\<close>, \<open>for\<close>, \<open>while\<close>, \<open>case\<close>, \<open>&&\<close> and \<open>||\<close>: the five keywords
  counted as whole words (a word boundary on each side), the two operators as plain
  substrings (their special characters escaped), found from the left as a global search
  finds them.
\<close>

theorem complexity_is_one_plus_occurrences:
  "calculateComplexity code
     = Some (1 + (\<Sum>kw\<leftarrow>[''if'', ''else'', ''for'', ''while'', ''case'']. occurrences_word kw code)
               + (\<Sum>op\<leftarrow>[''&&'', ''||'']. occurrences_literal op code))
   \<and> (\<exists>r. analyzeCode code lang now = Some r
        \<and> complexity (metrics r)
            = 1 + (\<Sum>kw\<leftarrow>[''if'', ''else'', ''for'', ''while'', ''case'']. occurrences_word kw code)
                + (\<Sum>op\<leftarrow>[''&&'', ''||'']. occurrences_literal op code))"
  by (simp add: analyzeCode_eq calculateComplexity_eq decision_points_def)

text \<open>
  C5: the rating is a function of the complexity alone: \<open>simple\<close> up to 5,
  \<open>moderate\<close> up to 10, \<open>complex\<close> up to 20, \<open>very_complex\<close> above. A text with
  exactly 5 decision points has complexity 6 and the rating \<open>moderate\<close>; one with
  exactly 4 has complexity 5 and the rating \<open>simple\<close>.
\<close>

theorem rating_thresholds:
  "\<exists>r. analyzeCode code lang now = Some r
     \<and> complexity_rating (metrics r)
         = (if complexity (metrics r) \<le> 5 then ''simple''
            else if complexity (metrics r) \<le> 10 then ''moderate''
            else if complexity (metrics r) \<le> 20 then ''complex''
            else ''very_complex'')
     \<and> (decision_points code = 5 \<longrightarrow>
           complexity (metrics r) = 6 \<and> complexity_rating (metrics r) = ''moderate'')
     \<and> (decision_points code = 4 \<longrightarrow>
           complexity (metrics r) = 5 \<and> complexity_rating (metrics r) = ''simple'')"
  by (simp add: analyzeCode_eq getComplexityRating_def)

theorem rating_thresholds_witness:
  "decision_points ''if (a && b) { f() } else { for (;;) { while (c) { g() } } }'' = 5
   \<and> map_option (complexity \<circ> metrics)
         (analyzeCode ''if (a && b) { f() } else { for (;;) { while (c) { g() } } }''
            ''javascript'' example_time)
       = Some 6
   \<and> map_option (complexity_rating \<circ> metrics)
         (analyzeCode ''if (a && b) { f() } else { for (;;) { while (c) { g() } } }''
            ''javascript'' example_time)
       = Some ''moderate''
   \<and> decision_points ''if (a && b) { f() } else { for (;;) { g() } }'' = 4
   \<and> map_option (complexity \<circ> metrics)
         (analyzeCode ''if (a && b) { f() } else { for (;;) { g() } }'' ''javascript'' example_time)
       = Some 5
   \<and> map_option (complexity_rating \<circ> metrics)
         (analyzeCode ''if (a && b) { f() } else { for (;;) { g() } }'' ''javascript'' example_time)
       = Some ''simple''"
proof -
  let ?five = "''if (a && b) { f() } else { for (;;) { while (c) { g() } } }''"
  let ?four = "''if (a && b) { f() } else { for (;;) { g() } }''"
  have five: "decision_points ?five = 5" and four: "decision_points ?four = 4"
    by code_simp+
  from rating_thresholds [of ?five "''javascript''" example_time] five
  have "map_option (complexity \<circ> metrics)
          (analyzeCode ?five ''javascript'' example_time) = Some 6"
    and "map_option (complexity_rating \<circ> metrics)
          (analyzeCode ?five ''javascript'' example_time) = Some ''moderate''"
    by auto
  moreover
  from rating_thresholds [of ?four "''javascript''" example_time] four
  have "map_option (complexity \<circ> metrics)
          (analyzeCode ?four ''javascript'' example_time) = Some 5"
    and "map_option (complexity_rating \<circ> metrics)
          (analyzeCode ?four ''javascript'' example_time) = Some ''simple''"
    by auto
  ultimately show ?thesis
    using five four by blast
qed

text \<open>
  C6: in every report \<open>summary.total_issues\<close> is the number of issues, and so is the sum
  of \<open>summary.high\<close>, \<open>summary.medium\<close>, \<open>summary.low\<close> and \<open>summary.info\<close>.
\<close>

theorem summary_is_consistent:
  "\<exists>r. analyzeCode code lang now = Some r
     \<and> total_issues (summary r) = length (issues r)
     \<and> high (summary r) + medium (summary r) + low (summary r) + info (summary r)
         = length (issues r)"
  by (simp add: analyzeCode_eq severity_counts)

text \<open>
  C7: the report of the empty text has 1 line, complexity 1, no issue, and
  \<open>summary.total_issues = 0\<close>.
\<close>

theorem empty_input_report:
  "\<exists>r. analyzeCode [] lang now = Some r
     \<and> lines (metrics r) = 1 \<and> complexity (metrics r) = 1
     \<and> issues r = [] \<and> total_issues (summary r) = 0"
  by (simp add: analyzeCode_eq detect_issues_eq decision_points_def occurrences_word_def
      rx_innerHTML_def rx_loose_eq_def)

text \<open>
  C8: each of the five rules puts at most one issue in the report, so a report has at
  most 5 issues, and the issues stand in the order in which the rules are tested (eval,
  innerHTML assignment, var, console.log, loose equality): the list of issues is a
  subsequence of the list of rules. The order is neither by severity nor by line: the
  text of the three lines \<open>var a;\<close>, \<open>eval(b == c);\<close> and \<open>console.log(a)\<close> gives
  the severities high, low, info, low on the lines 2, 1, 3, 2.
\<close>

theorem issues_follow_rule_order:
  "(\<exists>r. analyzeCode code lang now = Some r
      \<and> subseq (map rule_of (issues r)) rules_in_order
      \<and> distinct (map rule_of (issues r))
      \<and> length (issues r) \<le> 5)
   \<and> map_option (map severity \<circ> issues)
         (analyzeCode (''var a;'' @ [newline] @ ''eval(b == c);'' @ [newline] @ ''console.log(a)'')
            ''javascript'' example_time)
       = Some [''high'', ''low'', ''info'', ''low'']
   \<and> map_option (map line \<circ> issues)
         (analyzeCode (''var a;'' @ [newline] @ ''eval(b == c);'' @ [newline] @ ''console.log(a)'')
            ''javascript'' example_time)
       = Some [2, 1, 3, 2]"
proof -
  have "distinct (map rule_of (detect_issues code))"
    by (simp add: detect_issues_eq rule_of_def)
  then have "\<exists>r. analyzeCode code lang now = Some r
      \<and> subseq (map rule_of (issues r)) rules_in_order
      \<and> distinct (map rule_of (issues r))
      \<and> length (issues r) \<le> 5"
    by (simp add: analyzeCode_eq rules_subseq issues_at_most_five)
  moreover
  have "map_option (map severity \<circ> issues)
         (analyzeCode (''var a;'' @ [newline] @ ''eval(b == c);'' @ [newline] @ ''console.log(a)'')
            ''javascript'' example_time)
       = Some [''high'', ''low'', ''info'', ''low'']"
    by code_simp
  moreover
  have "map_option (map line \<circ> issues)
         (analyzeCode (''var a;'' @ [newline] @ ''eval(b == c);'' @ [newline] @ ''console.log(a)'')
            ''javascript'' example_time)
       = Some [2, 1, 3, 2]"
    by code_simp
  ultimately show ?thesis
    by blast
qed

text \<open>
  C9: the suggestions of the service are one refactoring suggestion when
  \<open>metrics.complexity\<close> is above 10 and none otherwise, followed by one security
  suggestion for each issue of severity high, in the order of the issues, and nothing
  else.
\<close>

theorem suggestions_are_refactoring_then_security:
  "generateSuggestions a
     = (if svc_complexity (svc_metrics a) > 10
        then [\<lparr>sug_type = ''refactoring'',
                sug_message = ''Consider breaking down complex functions into smaller ones''\<rparr>]
        else [])
       @ map (\<lambda>i. \<lparr>sug_type = ''security'',
                      sug_message = ''Fix '' @ svc_category i @ '' issue: '' @ svc_message i\<rparr>)
           (filter (\<lambda>i. svc_severity i = ''high'') (svc_issues a))
   \<and> length (filter (\<lambda>s. sug_type s = ''refactoring'') (generateSuggestions a))
       = (if svc_complexity (svc_metrics a) > 10 then 1 else 0)
   \<and> length (filter (\<lambda>s. sug_type s = ''security'') (generateSuggestions a))
       = length (filter (\<lambda>i. svc_severity i = ''high'') (svc_issues a))
   \<and> length (generateSuggestions a)
       = (if svc_complexity (svc_metrics a) > 10 then 1 else 0)
         + length (filter (\<lambda>i. svc_severity i = ''high'') (svc_issues a))"
  by (simp add: generateSuggestions_def suggestions_forEach_eq filter_map comp_def)

text \<open>
  C10: in every report the line of every issue lies between 1 and \<open>metrics.lines\<close>.
\<close>

theorem issue_lines_within_text:
  "\<exists>r. analyzeCode code lang now = Some r
     \<and> list_all (\<lambda>i. 1 \<le> line i \<and> line i \<le> lines (metrics r)) (issues r)"
  using issue_lines_in_range [of code] by (simp add: analyzeCode_eq)

theorem issue_lines_within_text_witness:
  "map_option (lines \<circ> metrics)
       (analyzeCode (''var a;'' @ [newline] @ ''eval(b == c);'' @ [newline] @ ''console.log(a)'')
          ''javascript'' example_time)
     = Some 3
   \<and> map_option (list_all (\<lambda>n. 1 \<le> n \<and> n \<le> 3) \<circ> map line \<circ> issues)
       (analyzeCode (''var a;'' @ [newline] @ ''eval(b == c);'' @ [newline] @ ''console.log(a)'')
          ''javascript'' example_time)
     = Some True
   \<and> map_option (length \<circ> issues)
       (analyzeCode (''var a;'' @ [newline] @ ''eval(b == c);'' @ [newline] @ ''console.log(a)'')
          ''javascript'' example_time)
     = Some 4"
proof -
  let ?code = "''var a;'' @ [newline] @ ''eval(b == c);'' @ [newline] @ ''console.log(a)''"
  have three: "map_option (lines \<circ> metrics) (analyzeCode ?code ''javascript'' example_time) = Some 3"
    and four: "map_option (length \<circ> issues) (analyzeCode ?code ''javascript'' example_time) = Some 4"
    by code_simp+
  from issue_lines_within_text [of ?code "''javascript''" example_time] three
  have "map_option (list_all (\<lambda>n. 1 \<le> n \<and> n \<le> 3) \<circ> map line \<circ> issues)
          (analyzeCode ?code ''javascript'' example_time) = Some True"
    by (auto simp: list_all_iff)
  with three four show ?thesis
    by blast
qed

end
